theory Spec2Isabelle
  imports Main "HOL-Library.AList" "HOL-Library.Multiset"
begin

section \<open>Adsorption-site enumeration of \<^verbatim>\<open>notebooks/site_recongnition.ipynb\<close>\<close>

text \<open>
  The notebook defines four functions over two names of the enclosing session:
  \<^verbatim>\<open>coordination_list\<close> (a numpy array of coordination numbers, one per atom) and
  \<^verbatim>\<open>system.neighbor_dict\<close> (a dictionary from an atom index to the sequence of its
  neighbours). \<^verbatim>\<open>get_surface_neighbors\<close> builds two dictionaries from them, and the three
  site functions read the first of the two, \<^verbatim>\<open>surface_neighbors_dict\<close>.

  Atom indices are natural numbers and coordination numbers are integers. The two
  session names are parameters of the model: \<^verbatim>\<open>coordination_list\<close> is a list of integers,
  \<^verbatim>\<open>system.neighbor_dict\<close> a partial map from an atom index to the list of neighbours in
  the order the loop reads them. A dictionary that the notebook builds is an association
  list in insertion order (the order \<^verbatim>\<open>.items()\<close> iterates in). A missing key is the
  error \<open>KeyError\<close>, and unpacking a list that has not exactly two elements is
  \<open>ValueError\<close>; a function that reads no dictionary entry and unpacks nothing returns
  its value directly.
\<close>

subsection \<open>Data\<close>

datatype error = KeyError nat | ValueError

type_synonym pydict = "(nat \<times> nat list) list"

type_synonym neighbor_dict = "nat \<rightharpoonup> nat list"

text \<open>\<^verbatim>\<open>d[k]\<close> on a dictionary.\<close>

definition getitem :: "pydict \<Rightarrow> nat \<Rightarrow> error + nat list" where
  "getitem d k = (case map_of d k of None \<Rightarrow> Inl (KeyError k) | Some v \<Rightarrow> Inr v)"

text \<open>\<^verbatim>\<open>d[k].append(v)\<close>: the entry of \<open>k\<close> keeps its place and grows at the end.\<close>

definition dict_append :: "pydict \<Rightarrow> nat \<Rightarrow> nat \<Rightarrow> error + pydict" where
  "dict_append d k v =
     (case map_of d k of
        None \<Rightarrow> Inl (KeyError k)
      | Some xs \<Rightarrow> Inr (AList.update k (xs @ [v]) d))"

text \<open>\<^verbatim>\<open>a, b = xs\<close>.\<close>

fun unpack2 :: "nat list \<Rightarrow> error + nat \<times> nat" where
  "unpack2 [a, b] = Inr (a, b)"
| "unpack2 _ = Inl ValueError"

text \<open>
  \<^verbatim>\<open>np.intersect1d(xs, ys)\<close>: the sorted, duplicate-free values that occur in both
  arguments.
\<close>

definition intersect1d :: "nat list \<Rightarrow> nat list \<Rightarrow> nat list" where
  "intersect1d xs ys = sort (remdups (filter (\<lambda>x. x \<in> set ys) xs))"

text \<open>\<^verbatim>\<open>if site not in sites: sites.append(site)\<close>.\<close>

definition append_new :: "nat list list \<Rightarrow> nat list \<Rightarrow> nat list list" where
  "append_new sites site = (if site \<in> set sites then sites else sites @ [site])"

subsection \<open>\<^verbatim>\<open>get_surface_neighbors\<close>\<close>

text \<open>\<^verbatim>\<open>np.where(coordination_list<12)[0]\<close>: the indices below 12, ascending.\<close>

definition surface_indices :: "int list \<Rightarrow> nat list" where
  "surface_indices coordination_list =
     filter (\<lambda>i. coordination_list ! i < 12) [0..<length coordination_list]"

text \<open>The inner loop, over the neighbours of one surface atom.\<close>

fun classify_neighbors ::
  "nat list \<Rightarrow> nat \<Rightarrow> nat list \<Rightarrow> pydict \<times> pydict \<Rightarrow> error + pydict \<times> pydict" where
  "classify_neighbors si surface_idx [] dicts = Inr dicts"
| "classify_neighbors si surface_idx (neigh # rest) (surf, subsurf) =
     (if neigh \<in> set si then
        (case dict_append surf surface_idx neigh of
           Inl e \<Rightarrow> Inl e
         | Inr surf' \<Rightarrow> classify_neighbors si surface_idx rest (surf', subsurf))
      else
        (case dict_append subsurf surface_idx neigh of
           Inl e \<Rightarrow> Inl e
         | Inr subsurf' \<Rightarrow> classify_neighbors si surface_idx rest (surf, subsurf')))"

text \<open>The outer loop, over the surface atoms.\<close>

fun surface_loop ::
  "nat list \<Rightarrow> neighbor_dict \<Rightarrow> nat list \<Rightarrow> pydict \<times> pydict \<Rightarrow> error + pydict \<times> pydict" where
  "surface_loop si nd [] dicts = Inr dicts"
| "surface_loop si nd (surface_idx # rest) dicts =
     (case nd surface_idx of
        None \<Rightarrow> Inl (KeyError surface_idx)
      | Some neighs \<Rightarrow>
          (case classify_neighbors si surface_idx neighs dicts of
             Inl e \<Rightarrow> Inl e
           | Inr dicts' \<Rightarrow> surface_loop si nd rest dicts'))"

definition get_surface_neighbors ::
  "int list \<Rightarrow> neighbor_dict \<Rightarrow> error + pydict \<times> pydict" where
  "get_surface_neighbors coordination_list nd =
     (let si = surface_indices coordination_list;
          surface_neighbors_dict = map (\<lambda>x. (x, [])) si;
          subsurface_neighbors_dict = map (\<lambda>x. (x, [])) si
      in surface_loop si nd si (surface_neighbors_dict, subsurface_neighbors_dict))"

subsection \<open>The site functions\<close>

definition get_surface_common_indices :: "pydict \<Rightarrow> nat \<Rightarrow> nat \<Rightarrow> error + nat list" where
  "get_surface_common_indices sn a b =
     (case getitem sn a of
        Inl e \<Rightarrow> Inl e
      | Inr na \<Rightarrow> (case getitem sn b of Inl e \<Rightarrow> Inl e | Inr nb \<Rightarrow> Inr (intersect1d na nb)))"

text \<open>The loop over the sorted neighbours of one dictionary entry.\<close>

definition bridges_of :: "nat \<Rightarrow> nat list \<Rightarrow> nat list list" where
  "bridges_of central_i neighbors =
     map (\<lambda>neigh_i. [central_i, neigh_i]) (filter (\<lambda>neigh_i. neigh_i > central_i) (sort neighbors))"

definition get_brige_site_indices :: "pydict \<Rightarrow> nat list list" where
  "get_brige_site_indices sn = concat (map (\<lambda>(central_i, neighbors). bridges_of central_i neighbors) sn)"

text \<open>The inner loop of \<^verbatim>\<open>get_hollow_site_indices\<close>, over the common neighbours.\<close>

fun hollow_inner :: "nat \<Rightarrow> nat \<Rightarrow> nat list \<Rightarrow> nat list list \<Rightarrow> nat list list" where
  "hollow_inner idx1 idx2 [] sites = sites"
| "hollow_inner idx1 idx2 (common_idx # rest) sites =
     hollow_inner idx1 idx2 rest (append_new sites (sort [idx1, idx2, common_idx]))"

fun hollow_loop :: "pydict \<Rightarrow> nat list list \<Rightarrow> nat list list \<Rightarrow> error + nat list list" where
  "hollow_loop sn [] sites = Inr sites"
| "hollow_loop sn (bridge # rest) sites =
     (case unpack2 bridge of
        Inl e \<Rightarrow> Inl e
      | Inr (idx1, idx2) \<Rightarrow>
          (case get_surface_common_indices sn idx1 idx2 of
             Inl e \<Rightarrow> Inl e
           | Inr common_idices \<Rightarrow> hollow_loop sn rest (hollow_inner idx1 idx2 common_idices sites)))"

definition get_hollow_site_indices :: "pydict \<Rightarrow> error + nat list list" where
  "get_hollow_site_indices sn = hollow_loop sn (get_brige_site_indices sn) []"

text \<open>
  The body of the inner loop of \<^verbatim>\<open>get_four_fold_hollow_site\<close> for one pair of bridge
  sites. \<^verbatim>\<open>check_a != check_b\<close> compares two arrays of one element each.
\<close>

definition four_fold_step ::
  "pydict \<Rightarrow> nat list \<Rightarrow> nat list \<Rightarrow> nat list list \<Rightarrow> error + nat list list" where
  "four_fold_step sn bridge_site other_bridge_site sites =
     (if length (intersect1d bridge_site other_bridge_site) = 0 then
        (case unpack2 bridge_site of
           Inl e \<Rightarrow> Inl e
         | Inr (a, b) \<Rightarrow>
         (case unpack2 other_bridge_site of
           Inl e \<Rightarrow> Inl e
         | Inr (c, d) \<Rightarrow>
         (case getitem sn a of
           Inl e \<Rightarrow> Inl e
         | Inr na \<Rightarrow>
         (case getitem sn b of
           Inl e \<Rightarrow> Inl e
         | Inr nb \<Rightarrow>
             (let check_a = intersect1d na other_bridge_site;
                  check_b = intersect1d nb other_bridge_site
              in if length check_a = 1 \<and> length check_b = 1 then
                   (if check_a \<noteq> check_b then Inr (append_new sites (sort [a, b, c, d]))
                    else Inr sites)
                 else Inr sites)))))
      else Inr sites)"

fun four_fold_inner ::
  "pydict \<Rightarrow> nat list \<Rightarrow> nat list list \<Rightarrow> nat list list \<Rightarrow> error + nat list list" where
  "four_fold_inner sn bridge_site [] sites = Inr sites"
| "four_fold_inner sn bridge_site (other_bridge_site # rest) sites =
     (case four_fold_step sn bridge_site other_bridge_site sites of
        Inl e \<Rightarrow> Inl e
      | Inr sites' \<Rightarrow> four_fold_inner sn bridge_site rest sites')"

text \<open>The outer loop: \<^verbatim>\<open>bridge_sites_indices[i+1:]\<close> is the rest of the list.\<close>

fun four_fold_loop :: "pydict \<Rightarrow> nat list list \<Rightarrow> nat list list \<Rightarrow> error + nat list list" where
  "four_fold_loop sn [] sites = Inr sites"
| "four_fold_loop sn (bridge_site # rest) sites =
     (case four_fold_inner sn bridge_site rest sites of
        Inl e \<Rightarrow> Inl e
      | Inr sites' \<Rightarrow> four_fold_loop sn rest sites')"

definition get_four_fold_hollow_site :: "pydict \<Rightarrow> error + nat list list" where
  "get_four_fold_hollow_site sn = four_fold_loop sn (get_brige_site_indices sn) []"

subsection \<open>Notions of the specification\<close>

text \<open>The neighbours of an atom in \<^verbatim>\<open>neighbor_dict\<close>; an atom without entry has none.\<close>

definition neighbors_of :: "neighbor_dict \<Rightarrow> nat \<Rightarrow> nat list" where
  "neighbors_of nd a = (case nd a of None \<Rightarrow> [] | Some ns \<Rightarrow> ns)"

text \<open>The neighbour graph is symmetric: if \<open>b\<close> is a neighbour of \<open>a\<close>, then \<open>a\<close> is one of \<open>b\<close>.\<close>

definition symmetric_graph :: "neighbor_dict \<Rightarrow> bool" where
  "symmetric_graph nd = (\<forall>a b. b \<in> set (neighbors_of nd a) \<longrightarrow> a \<in> set (neighbors_of nd b))"

text \<open>
  The neighbours of an atom are a set: no surface atom has the same surface atom twice
  in its neighbour list. (Neighbours that are not surface atoms play no role.)
\<close>

definition surface_neighbor_sets :: "int list \<Rightarrow> neighbor_dict \<Rightarrow> bool" where
  "surface_neighbor_sets cl nd =
     (\<forall>a \<in> set (surface_indices cl).
        distinct (filter (\<lambda>n. n \<in> set (surface_indices cl)) (neighbors_of nd a)))"

text \<open>The neighbour graph is irreflexive: no atom is its own neighbour.\<close>

definition irreflexive_graph :: "neighbor_dict \<Rightarrow> bool" where
  "irreflexive_graph nd = (\<forall>a. a \<notin> set (neighbors_of nd a))"

text \<open>The surface neighbours of an atom: its entry in \<^verbatim>\<open>surface_neighbors_dict\<close>.\<close>

definition surface_nbrs :: "pydict \<Rightarrow> nat \<Rightarrow> nat list" where
  "surface_nbrs sn a = (case map_of sn a of None \<Rightarrow> [] | Some ns \<Rightarrow> ns)"

text \<open>
  The acceptance rule of the 4-fold hollow enumeration in the words of the
  specification, for the bridge pairs \<open>(a, b)\<close> and \<open>(c, d)\<close>: the pairs share no atom,
  \<open>check_a\<close> and \<open>check_b\<close> (the surface neighbours of \<open>a\<close>, and of \<open>b\<close>, among \<open>c\<close> and \<open>d\<close>)
  have exactly one element each, and the two differ.
\<close>

definition spec_accepts :: "pydict \<Rightarrow> nat \<Rightarrow> nat \<Rightarrow> nat \<Rightarrow> nat \<Rightarrow> bool" where
  "spec_accepts sn a b c d =
     ({a, b} \<inter> {c, d} = {} \<and>
      card (set (surface_nbrs sn a) \<inter> {c, d}) = 1 \<and>
      card (set (surface_nbrs sn b) \<inter> {c, d}) = 1 \<and>
      set (surface_nbrs sn a) \<inter> {c, d} \<noteq> set (surface_nbrs sn b) \<inter> {c, d})"

text \<open>Two atoms are surface-adjacent: each is a surface neighbour of the other.\<close>

definition surface_adjacent :: "pydict \<Rightarrow> nat \<Rightarrow> nat \<Rightarrow> bool" where
  "surface_adjacent sn x y = (y \<in> set (surface_nbrs sn x) \<and> x \<in> set (surface_nbrs sn y))"

text \<open>All atoms of all sites of a result are surface atoms.\<close>

definition on_surface :: "int list \<Rightarrow> nat list list \<Rightarrow> bool" where
  "on_surface cl sites = (\<forall>site \<in> set sites. \<forall>x \<in> set site. x < length cl \<and> cl ! x < 12)"

text \<open>A list that unpacks into two keys of the dictionary.\<close>

definition well_formed_bridge :: "pydict \<Rightarrow> nat list \<Rightarrow> bool" where
  "well_formed_bridge sn br = (\<exists>a b. br = [a, b] \<and> a \<in> fst ` set sn \<and> b \<in> fst ` set sn)"

text \<open>The pairs of elements of a list in which the second comes after the first.\<close>

definition later_pairs :: "'a list \<Rightarrow> ('a \<times> 'a) set" where
  "later_pairs xs = {(xs ! i, xs ! j) | i j. i < j \<and> j < length xs}"

subsection \<open>Example structures\<close>

text \<open>
  A square facet: the atoms 0-1, 1-2, 2-3 and 3-0 are neighbours, 0-2 and 1-3 are not,
  and every atom has coordination number 2.
\<close>

definition square_coordination :: "int list" where
  "square_coordination = [2, 2, 2, 2]"

definition square_facet :: neighbor_dict where
  "square_facet = map_of [(0, [1, 3]), (1, [0, 2]), (2, [1, 3]), (3, [0, 2])]"

definition square_surface :: pydict where
  "square_surface = [(0, [1, 3]), (1, [0, 2]), (2, [1, 3]), (3, [0, 2])]"

text \<open>A triangular facet: the atoms 0, 1 and 2 are neighbours of each other.\<close>

definition triangle_coordination :: "int list" where
  "triangle_coordination = [2, 2, 2]"

definition triangle_facet :: neighbor_dict where
  "triangle_facet = map_of [(0, [1, 2]), (1, [0, 2]), (2, [0, 1])]"

definition triangle_surface :: pydict where
  "triangle_surface = [(0, [1, 2]), (1, [0, 2]), (2, [0, 1])]"

text \<open>
  A square of surface atoms 0 to 3 over one bulk atom 4, which is a neighbour of the
  four and has coordination number 12.
\<close>

definition pyramid_coordination :: "int list" where
  "pyramid_coordination = [3, 3, 3, 3, 12]"

definition pyramid :: neighbor_dict where
  "pyramid = map_of [(0, [1, 3, 4]), (1, [0, 2, 4]), (2, [1, 3, 4]), (3, [0, 2, 4]), (4, [0, 1, 2, 3])]"

definition pyramid_surface :: pydict where
  "pyramid_surface = [(0, [1, 3]), (1, [0, 2]), (2, [1, 3]), (3, [0, 2])]"

definition pyramid_subsurface :: pydict where
  "pyramid_subsurface = [(0, [4]), (1, [4]), (2, [4]), (3, [4])]"

text \<open>The dictionary in which every surface atom has no subsurface neighbour.\<close>

definition no_subsurface :: "nat list \<Rightarrow> pydict" where
  "no_subsurface keys = map (\<lambda>x. (x, [])) keys"

section \<open>The surface partition\<close>

text \<open>
  The two loops of \<^verbatim>\<open>get_surface_neighbors\<close> keep the keys of both dictionaries and
  append, to the entries of the atom at hand, its neighbours that are surface atoms and
  those that are not.
\<close>

lemma surface_indices_set: "set (surface_indices cl) = {i. i < length cl \<and> cl ! i < 12}"
  by (auto simp: surface_indices_def)

lemma surface_indices_distinct: "distinct (surface_indices cl)"
  by (simp add: surface_indices_def)

lemma surface_indices_bulk: "(\<forall>c \<in> set cl. 12 \<le> c) \<Longrightarrow> surface_indices cl = []"
  unfolding surface_indices_def filter_empty_conv
  by (metis atLeastLessThan_iff linorder_not_less nth_mem set_upt)

lemma dict_append_ok:
  assumes "k \<in> fst ` set d"
  shows "\<exists>d'. dict_append d k v = Inr d' \<and> map fst d' = map fst d
           \<and> map_of d' = (map_of d)(k \<mapsto> the (map_of d k) @ [v])"
proof -
  from assms obtain xs where xs: "map_of d k = Some xs"
    by (metis domD dom_map_of_conv_image_fst)
  have "map fst (AList.update k (xs @ [v]) d) = map fst d"
    using assms by (simp add: update_keys)
  with xs show ?thesis
    by (simp add: dict_append_def update_conv')
qed

lemma classify_neighbors_ok:
  assumes "idx \<in> fst ` set surf" "idx \<in> fst ` set subsurf"
  shows "\<exists>surf' subsurf'. classify_neighbors si idx ns (surf, subsurf) = Inr (surf', subsurf')
           \<and> map fst surf' = map fst surf \<and> map fst subsurf' = map fst subsurf
           \<and> map_of surf' = (map_of surf)(idx \<mapsto> the (map_of surf idx) @ filter (\<lambda>n. n \<in> set si) ns)
           \<and> map_of subsurf' = (map_of subsurf)(idx \<mapsto> the (map_of subsurf idx) @ filter (\<lambda>n. n \<notin> set si) ns)"
  using assms
proof (induction ns arbitrary: surf subsurf)
  case Nil
  then have "map_of surf idx \<noteq> None" "map_of subsurf idx \<noteq> None"
    by (simp_all add: map_of_eq_None_iff)
  then show ?case by (auto simp: fun_upd_idem)
next
  case (Cons n ns)
  show ?case
  proof (cases "n \<in> set si")
    case True
    from dict_append_ok[OF Cons.prems(1), of n] obtain s1 where
      s1: "dict_append surf idx n = Inr s1" "map fst s1 = map fst surf"
          "map_of s1 = (map_of surf)(idx \<mapsto> the (map_of surf idx) @ [n])" by blast
    from s1(2) Cons.prems(1) have "idx \<in> fst ` set s1" by (metis list.set_map)
    from Cons.IH[OF this Cons.prems(2)] obtain surf' subsurf' where
      r: "classify_neighbors si idx ns (s1, subsurf) = Inr (surf', subsurf')"
         "map fst surf' = map fst s1" "map fst subsurf' = map fst subsurf"
         "map_of surf' = (map_of s1)(idx \<mapsto> the (map_of s1 idx) @ filter (\<lambda>n. n \<in> set si) ns)"
         "map_of subsurf' = (map_of subsurf)(idx \<mapsto> the (map_of subsurf idx) @ filter (\<lambda>n. n \<notin> set si) ns)"
      by blast
    show ?thesis using True s1 r by (auto simp: fun_upd_def)
  next
    case False
    from dict_append_ok[OF Cons.prems(2), of n] obtain s1 where
      s1: "dict_append subsurf idx n = Inr s1" "map fst s1 = map fst subsurf"
          "map_of s1 = (map_of subsurf)(idx \<mapsto> the (map_of subsurf idx) @ [n])" by blast
    from s1(2) Cons.prems(2) have "idx \<in> fst ` set s1" by (metis list.set_map)
    from Cons.IH[OF Cons.prems(1) this] obtain surf' subsurf' where
      r: "classify_neighbors si idx ns (surf, s1) = Inr (surf', subsurf')"
         "map fst surf' = map fst surf" "map fst subsurf' = map fst s1"
         "map_of surf' = (map_of surf)(idx \<mapsto> the (map_of surf idx) @ filter (\<lambda>n. n \<in> set si) ns)"
         "map_of subsurf' = (map_of s1)(idx \<mapsto> the (map_of s1 idx) @ filter (\<lambda>n. n \<notin> set si) ns)"
      by blast
    show ?thesis using False s1 r by (auto simp: fun_upd_def)
  qed
qed

lemma surface_loop_ok:
  assumes "set idxs \<subseteq> fst ` set surf" "set idxs \<subseteq> fst ` set subsurf"
    and "distinct idxs" "\<forall>i \<in> set idxs. nd i \<noteq> None"
  shows "\<exists>surf' subsurf'. surface_loop si nd idxs (surf, subsurf) = Inr (surf', subsurf')
           \<and> map fst surf' = map fst surf \<and> map fst subsurf' = map fst subsurf
           \<and> (\<forall>k. map_of surf' k =
                 (if k \<in> set idxs
                  then Some (the (map_of surf k) @ filter (\<lambda>n. n \<in> set si) (the (nd k)))
                  else map_of surf k))
           \<and> (\<forall>k. map_of subsurf' k =
                 (if k \<in> set idxs
                  then Some (the (map_of subsurf k) @ filter (\<lambda>n. n \<notin> set si) (the (nd k)))
                  else map_of subsurf k))"
  using assms
proof (induction idxs arbitrary: surf subsurf)
  case Nil
  then show ?case by simp
next
  case (Cons i idxs)
  from Cons.prems obtain ns where ns: "nd i = Some ns" by auto
  from Cons.prems have i: "i \<in> fst ` set surf" "i \<in> fst ` set subsurf" by auto
  from classify_neighbors_ok[OF i, of si ns] obtain s1 t1 where
    c: "classify_neighbors si i ns (surf, subsurf) = Inr (s1, t1)"
       "map fst s1 = map fst surf" "map fst t1 = map fst subsurf"
       "map_of s1 = (map_of surf)(i \<mapsto> the (map_of surf i) @ filter (\<lambda>n. n \<in> set si) ns)"
       "map_of t1 = (map_of subsurf)(i \<mapsto> the (map_of subsurf i) @ filter (\<lambda>n. n \<notin> set si) ns)"
    by blast
  have k1: "fst ` set s1 = fst ` set surf" "fst ` set t1 = fst ` set subsurf"
    using c(2,3) by (metis list.set_map)+
  have p: "set idxs \<subseteq> fst ` set s1" "set idxs \<subseteq> fst ` set t1"
          "distinct idxs" "\<forall>i \<in> set idxs. nd i \<noteq> None"
    using Cons.prems k1 by auto
  from Cons.IH[OF p] obtain surf' subsurf' where
    r: "surface_loop si nd idxs (s1, t1) = Inr (surf', subsurf')"
       "map fst surf' = map fst s1" "map fst subsurf' = map fst t1"
       "\<forall>k. map_of surf' k =
                 (if k \<in> set idxs
                  then Some (the (map_of s1 k) @ filter (\<lambda>n. n \<in> set si) (the (nd k)))
                  else map_of s1 k)"
       "\<forall>k. map_of subsurf' k =
                 (if k \<in> set idxs
                  then Some (the (map_of t1 k) @ filter (\<lambda>n. n \<notin> set si) (the (nd k)))
                  else map_of t1 k)"
    by blast
  have ni: "i \<notin> set idxs" using Cons.prems(3) by simp
  have "surface_loop si nd (i # idxs) (surf, subsurf) = Inr (surf', subsurf')"
    using ns c(1) r(1) by simp
  moreover have "map fst surf' = map fst surf" "map fst subsurf' = map fst subsurf"
    using r(2,3) c(2,3) by simp_all
  moreover have "\<forall>k. map_of surf' k =
                 (if k \<in> set (i # idxs)
                  then Some (the (map_of surf k) @ filter (\<lambda>n. n \<in> set si) (the (nd k)))
                  else map_of surf k)"
    using r(4) c(4) ni ns by auto
  moreover have "\<forall>k. map_of subsurf' k =
                 (if k \<in> set (i # idxs)
                  then Some (the (map_of subsurf k) @ filter (\<lambda>n. n \<notin> set si) (the (nd k)))
                  else map_of subsurf k)"
    using r(5) c(5) ni ns by auto
  ultimately show ?case by blast
qed

lemma surface_loop_Inr_keys:
  "surface_loop si nd idxs dicts = Inr dicts' \<Longrightarrow> \<forall>i \<in> set idxs. nd i \<noteq> None"
  by (induction idxs arbitrary: dicts) (auto split: option.splits sum.splits)

lemma map_of_init: "map_of (map (\<lambda>x. (x, [])) xs) k = (if k \<in> set xs then Some [] else None)"
  by (induction xs) auto

lemma get_surface_neighbors_ok:
  assumes "\<forall>i \<in> set (surface_indices cl). nd i \<noteq> None"
  shows "\<exists>sn ssn. get_surface_neighbors cl nd = Inr (sn, ssn)
           \<and> map fst sn = surface_indices cl \<and> map fst ssn = surface_indices cl
           \<and> (\<forall>a \<in> set (surface_indices cl).
                 map_of sn a = Some (filter (\<lambda>n. n \<in> set (surface_indices cl)) (the (nd a)))
               \<and> map_of ssn a = Some (filter (\<lambda>n. n \<notin> set (surface_indices cl)) (the (nd a))))"
proof -
  let ?si = "surface_indices cl"
  let ?init = "map (\<lambda>x. (x, [])) ?si"
  have k: "map fst ?init = ?si" by (simp add: comp_def)
  then have s: "set ?si \<subseteq> fst ` set ?init" by (metis list.set_map order_refl)
  from surface_loop_ok[OF s s surface_indices_distinct assms, of ?si]
  show ?thesis
    unfolding get_surface_neighbors_def Let_def
    by (auto simp: comp_def map_of_init)
qed

lemma get_surface_neighbors_Inr:
  assumes "get_surface_neighbors cl nd = Inr (sn, ssn)"
  shows "map fst sn = surface_indices cl" "map fst ssn = surface_indices cl"
    and "\<forall>a \<in> set (surface_indices cl). \<exists>ns. nd a = Some ns
           \<and> map_of sn a = Some (filter (\<lambda>n. n \<in> set (surface_indices cl)) ns)
           \<and> map_of ssn a = Some (filter (\<lambda>n. n \<notin> set (surface_indices cl)) ns)"
proof -
  from assms have d: "\<forall>i \<in> set (surface_indices cl). nd i \<noteq> None"
    unfolding get_surface_neighbors_def Let_def by (rule surface_loop_Inr_keys)
  from get_surface_neighbors_ok[OF d] assms
  show "map fst sn = surface_indices cl" "map fst ssn = surface_indices cl"
    and "\<forall>a \<in> set (surface_indices cl). \<exists>ns. nd a = Some ns
           \<and> map_of sn a = Some (filter (\<lambda>n. n \<in> set (surface_indices cl)) ns)
           \<and> map_of ssn a = Some (filter (\<lambda>n. n \<notin> set (surface_indices cl)) ns)"
    using d by auto
qed

text \<open>
  C4. When \<^verbatim>\<open>neighbor_dict\<close> has an entry for every surface atom, the surface partition
  returns two dictionaries whose keys are exactly the atoms with a coordination number
  strictly below 12, in ascending order. For each such atom, the first dictionary holds
  those of its neighbours that are surface atoms, the second holds the other
  neighbours, both in the order of the neighbour list, and the two lists together are
  a partition of that neighbour list.
\<close>

theorem surface_partition:
  assumes "\<forall>i \<in> set (surface_indices cl). nd i \<noteq> None"
  shows "\<exists>sn ssn. get_surface_neighbors cl nd = Inr (sn, ssn)
           \<and> map fst sn = surface_indices cl \<and> map fst ssn = surface_indices cl
           \<and> (\<forall>i. i \<in> set (map fst sn) \<longleftrightarrow> i < length cl \<and> cl ! i < 12)
           \<and> (\<forall>a \<in> set (surface_indices cl). \<exists>ns surf subsurf.
                 nd a = Some ns \<and> map_of sn a = Some surf \<and> map_of ssn a = Some subsurf
               \<and> surf = filter (\<lambda>n. n \<in> set (surface_indices cl)) ns
               \<and> subsurf = filter (\<lambda>n. n \<notin> set (surface_indices cl)) ns
               \<and> mset surf + mset subsurf = mset ns
               \<and> set surf \<inter> set subsurf = {})"
proof -
  from get_surface_neighbors_ok[OF assms] obtain sn ssn where
    r: "get_surface_neighbors cl nd = Inr (sn, ssn)"
       "map fst sn = surface_indices cl" "map fst ssn = surface_indices cl"
       "\<forall>a \<in> set (surface_indices cl).
           map_of sn a = Some (filter (\<lambda>n. n \<in> set (surface_indices cl)) (the (nd a)))
         \<and> map_of ssn a = Some (filter (\<lambda>n. n \<notin> set (surface_indices cl)) (the (nd a)))"
    by blast
  have "\<forall>i. i \<in> set (map fst sn) \<longleftrightarrow> i < length cl \<and> cl ! i < 12"
    using r(2) by (simp add: surface_indices_set)
  moreover have "\<forall>a \<in> set (surface_indices cl). \<exists>ns surf subsurf.
                 nd a = Some ns \<and> map_of sn a = Some surf \<and> map_of ssn a = Some subsurf
               \<and> surf = filter (\<lambda>n. n \<in> set (surface_indices cl)) ns
               \<and> subsurf = filter (\<lambda>n. n \<notin> set (surface_indices cl)) ns
               \<and> mset surf + mset subsurf = mset ns
               \<and> set surf \<inter> set subsurf = {}"
  proof
    fix a assume a: "a \<in> set (surface_indices cl)"
    with assms obtain ns where ns: "nd a = Some ns" by auto
    have "mset (filter (\<lambda>n. n \<in> set (surface_indices cl)) ns)
            + mset (filter (\<lambda>n. n \<notin> set (surface_indices cl)) ns) = mset ns"
      by (induction ns) auto
    moreover have "set (filter (\<lambda>n. n \<in> set (surface_indices cl)) ns)
            \<inter> set (filter (\<lambda>n. n \<notin> set (surface_indices cl)) ns) = {}"
      by auto
    ultimately show "\<exists>ns surf subsurf.
                 nd a = Some ns \<and> map_of sn a = Some surf \<and> map_of ssn a = Some subsurf
               \<and> surf = filter (\<lambda>n. n \<in> set (surface_indices cl)) ns
               \<and> subsurf = filter (\<lambda>n. n \<notin> set (surface_indices cl)) ns
               \<and> mset surf + mset subsurf = mset ns
               \<and> set surf \<inter> set subsurf = {}"
      using r(4) a ns by simp
  qed
  ultimately show ?thesis using r(1,2,3) by blast
qed

theorem surface_partition_witness:
  "get_surface_neighbors [3, 12, 5] (map_of [(0, [1, 2]), (1, [0, 2]), (2, [1, 0])])
     = Inr ([(0, [2]), (2, [0])], [(0, [1]), (2, [1])])
   \<and> (\<exists>sn ssn. get_surface_neighbors [3, 12, 5] (map_of [(0, [1, 2]), (1, [0, 2]), (2, [1, 0])])
          = Inr (sn, ssn) \<and> map fst sn = [0, 2] \<and> map fst ssn = [0, 2])"
proof -
  have si: "surface_indices [3, 12, 5] = [0, 2]" by code_simp
  have h: "\<forall>i \<in> set (surface_indices [3, 12, 5]).
             map_of [(0, [1, 2]), (1, [0, 2]), (2, [1, 0::nat])] i \<noteq> None"
    unfolding si by simp
  have e: "get_surface_neighbors [3, 12, 5] (map_of [(0, [1, 2]), (1, [0, 2]), (2, [1, 0])])
     = Inr ([(0, [2]), (2, [0])], [(0, [1]), (2, [1])])"
    by code_simp
  from surface_partition[OF h] si
  have "\<exists>sn ssn. get_surface_neighbors [3, 12, 5] (map_of [(0, [1, 2]), (1, [0, 2]), (2, [1, 0])])
          = Inr (sn, ssn) \<and> map fst sn = [0, 2] \<and> map fst ssn = [0, 2]"
    by metis
  with e show ?thesis by blast
qed

section \<open>The scenarios\<close>

text \<open>
  C6. On the square facet, every atom is a surface atom, the bridge sites are exactly
  [0,1], [1,2], [2,3] and [0,3], there is no 3-fold hollow site, and the only 4-fold
  hollow site is [0,1,2,3].
\<close>

theorem square_facet_sites:
  "get_surface_neighbors square_coordination square_facet
     = Inr (square_surface, no_subsurface [0, 1, 2, 3])
   \<and> set (get_brige_site_indices square_surface) = {[0, 1], [1, 2], [2, 3], [0, 3]}
   \<and> get_hollow_site_indices square_surface = Inr []
   \<and> get_four_fold_hollow_site square_surface = Inr [[0, 1, 2, 3]]"
proof -
  have "get_surface_neighbors square_coordination square_facet
     = Inr (square_surface, no_subsurface [0, 1, 2, 3])"
    by code_simp
  moreover have "get_brige_site_indices square_surface = [[0, 1], [0, 3], [1, 2], [2, 3]]"
    by code_simp
  then have "set (get_brige_site_indices square_surface) = {[0, 1], [1, 2], [2, 3], [0, 3]}"
    by auto
  moreover have "get_hollow_site_indices square_surface = Inr []"
    by code_simp
  moreover have "get_four_fold_hollow_site square_surface = Inr [[0, 1, 2, 3]]"
    by code_simp
  ultimately show ?thesis by blast
qed

text \<open>
  C7. On the triangular facet, every atom is a surface atom, the bridge sites are
  exactly [0,1], [0,2] and [1,2], the only 3-fold hollow site is [0,1,2], and there is
  no 4-fold hollow site.
\<close>

theorem triangle_facet_sites:
  "get_surface_neighbors triangle_coordination triangle_facet
     = Inr (triangle_surface, no_subsurface [0, 1, 2])
   \<and> set (get_brige_site_indices triangle_surface) = {[0, 1], [0, 2], [1, 2]}
   \<and> get_hollow_site_indices triangle_surface = Inr [[0, 1, 2]]
   \<and> get_four_fold_hollow_site triangle_surface = Inr []"
proof -
  have "get_surface_neighbors triangle_coordination triangle_facet
     = Inr (triangle_surface, no_subsurface [0, 1, 2])"
    by code_simp
  moreover have "get_brige_site_indices triangle_surface = [[0, 1], [0, 2], [1, 2]]"
    by code_simp
  then have "set (get_brige_site_indices triangle_surface) = {[0, 1], [0, 2], [1, 2]}"
    by auto
  moreover have "get_hollow_site_indices triangle_surface = Inr [[0, 1, 2]]"
    by code_simp
  moreover have "get_four_fold_hollow_site triangle_surface = Inr []"
    by code_simp
  ultimately show ?thesis by blast
qed

section \<open>A structure without surface\<close>

text \<open>
  C8. When every coordination number is at least 12, nothing raises: there is no
  surface atom, the two dictionaries are empty, and on the empty dictionary the three
  enumerations return the empty list.
\<close>

theorem bulk_only_empty:
  assumes "\<forall>c \<in> set cl. 12 \<le> c"
  shows "surface_indices cl = []
       \<and> get_surface_neighbors cl nd = Inr ([], [])
       \<and> get_brige_site_indices [] = []
       \<and> get_hollow_site_indices [] = Inr []
       \<and> get_four_fold_hollow_site [] = Inr []"
proof -
  have si: "surface_indices cl = []" using assms by (rule surface_indices_bulk)
  then have "get_surface_neighbors cl nd = Inr ([], [])"
    by (simp add: get_surface_neighbors_def)
  moreover have "get_brige_site_indices [] = []"
    by (simp add: get_brige_site_indices_def)
  then have "get_hollow_site_indices [] = Inr []" "get_four_fold_hollow_site [] = Inr []"
    by (simp_all add: get_hollow_site_indices_def get_four_fold_hollow_site_def)
  ultimately show ?thesis using si by (simp add: get_brige_site_indices_def)
qed

theorem bulk_only_empty_witness:
  "surface_indices [12, 14] = []
   \<and> get_surface_neighbors [12, 14] Map.empty = Inr ([], [])
   \<and> get_hollow_site_indices [] = Inr []
   \<and> get_four_fold_hollow_site [] = Inr []"
proof -
  have h: "\<forall>c \<in> set [12, 14 :: int]. 12 \<le> c" by simp
  from bulk_only_empty[OF h, of Map.empty] show ?thesis by blast
qed

section \<open>The bridge enumeration\<close>

text \<open>
  What the site functions need of the dictionary of a surface partition: its keys are
  the surface atoms, each once, and the entry of a key is the list of its neighbours
  that are surface atoms.
\<close>

lemma surface_dict_facts:
  assumes "get_surface_neighbors cl nd = Inr (sn, ssn)"
  shows "distinct (map fst sn)"
    and "fst ` set sn = set (surface_indices cl)"
    and "\<And>a. a \<in> set (surface_indices cl) \<Longrightarrow>
           surface_nbrs sn a = filter (\<lambda>n. n \<in> set (surface_indices cl)) (neighbors_of nd a)"
    and "\<And>a. a \<notin> set (surface_indices cl) \<Longrightarrow> surface_nbrs sn a = []"
    and "\<And>a ns. (a, ns) \<in> set sn \<longleftrightarrow> a \<in> set (surface_indices cl) \<and> ns = surface_nbrs sn a"
proof -
  note r = get_surface_neighbors_Inr[OF assms]
  show d: "distinct (map fst sn)" unfolding r(1) by (rule surface_indices_distinct)
  have "set (map fst sn) = set (surface_indices cl)" unfolding r(1) ..
  then show k: "fst ` set sn = set (surface_indices cl)" by simp
  have m: "map_of sn a = Some (filter (\<lambda>n. n \<in> set (surface_indices cl)) (neighbors_of nd a))"
    if "a \<in> set (surface_indices cl)" for a
  proof -
    from r(3) that obtain ns where "nd a = Some ns"
      "map_of sn a = Some (filter (\<lambda>n. n \<in> set (surface_indices cl)) ns)" by blast
    then show ?thesis by (simp add: neighbors_of_def)
  qed
  show s: "surface_nbrs sn a = filter (\<lambda>n. n \<in> set (surface_indices cl)) (neighbors_of nd a)"
    if "a \<in> set (surface_indices cl)" for a
    using m[OF that] by (simp add: surface_nbrs_def)
  show n: "surface_nbrs sn a = []" if "a \<notin> set (surface_indices cl)" for a
  proof -
    from that have "map_of sn a = None" unfolding k[symmetric] by (simp add: map_of_eq_None_iff)
    then show ?thesis by (simp add: surface_nbrs_def)
  qed
  show "(a, ns) \<in> set sn \<longleftrightarrow> a \<in> set (surface_indices cl) \<and> ns = surface_nbrs sn a" for a ns
  proof (cases "a \<in> set (surface_indices cl)")
    case True
    have "(a, ns) \<in> set sn \<longleftrightarrow> map_of sn a = Some ns"
      using d by simp
    also have "\<dots> \<longleftrightarrow> ns = surface_nbrs sn a"
      unfolding s[OF True] m[OF True] by auto
    finally show ?thesis using True by simp
  next
    case False
    then have "a \<notin> fst ` set sn" unfolding k .
    then have "(a, ns) \<notin> set sn" by force
    then show ?thesis using False by simp
  qed
qed

lemma surface_nbrs_surface:
  assumes "get_surface_neighbors cl nd = Inr (sn, ssn)" "b \<in> set (surface_nbrs sn a)"
  shows "a \<in> set (surface_indices cl)" "b \<in> set (surface_indices cl)"
    "b \<in> set (neighbors_of nd a)"
proof -
  note f = surface_dict_facts[OF assms(1)]
  show a: "a \<in> set (surface_indices cl)"
  proof (rule ccontr)
    assume "a \<notin> set (surface_indices cl)"
    from f(4)[OF this] assms(2) show False by simp
  qed
  show "b \<in> set (surface_indices cl)" "b \<in> set (neighbors_of nd a)"
    using f(3)[OF a] assms(2) by auto
qed

lemma set_bridges_of: "set (bridges_of a ns) = {[a, b] | b. b \<in> set ns \<and> a < b}"
  by (auto simp: bridges_of_def)

lemma set_get_brige_site_indices:
  "set (get_brige_site_indices sn) = {[a, b] | a b ns. (a, ns) \<in> set sn \<and> b \<in> set ns \<and> a < b}"
proof (induction sn)
  case Nil
  show ?case by (simp add: get_brige_site_indices_def)
next
  case (Cons e sn)
  obtain k ns where e: "e = (k, ns)" by (cases e)
  have "set (get_brige_site_indices (e # sn)) =
          {[k, b] | b. b \<in> set ns \<and> k < b} \<union> set (get_brige_site_indices sn)"
    by (simp add: get_brige_site_indices_def e set_bridges_of)
  also have "\<dots> = {[a, b] | a b ms. (a, ms) \<in> set (e # sn) \<and> b \<in> set ms \<and> a < b}"
    unfolding Cons.IH e by auto
  finally show ?case .
qed

lemma bridge_set_surface:
  assumes "get_surface_neighbors cl nd = Inr (sn, ssn)"
  shows "set (get_brige_site_indices sn) =
           {[a, b] | a b. a \<in> set (surface_indices cl) \<and> b \<in> set (surface_nbrs sn a) \<and> a < b}"
  unfolding set_get_brige_site_indices surface_dict_facts(5)[OF assms] by blast

lemma bridge_wf:
  assumes "get_surface_neighbors cl nd = Inr (sn, ssn)" "br \<in> set (get_brige_site_indices sn)"
  shows "\<exists>a b. br = [a, b] \<and> a < b \<and> b \<in> set (surface_nbrs sn a)
           \<and> a \<in> fst ` set sn \<and> b \<in> fst ` set sn"
proof -
  from assms(2) obtain a b where
    ab: "br = [a, b]" "a \<in> set (surface_indices cl)" "b \<in> set (surface_nbrs sn a)" "a < b"
    unfolding bridge_set_surface[OF assms(1)] by blast
  from surface_nbrs_surface(2)[OF assms(1) ab(3)] have "b \<in> set (surface_indices cl)" .
  with ab show ?thesis unfolding surface_dict_facts(2)[OF assms(1)] by blast
qed

lemma count_list_pairs:
  "count_list (map (\<lambda>n. [a, n]) xs) [x, y] = (if x = a then count_list xs y else 0)"
proof (cases "x = a")
  case True
  have "count_list (map (\<lambda>n. [a, n]) xs) [a, y] = count_list xs y"
    by (induction xs) simp_all
  with True show ?thesis by simp
next
  case False
  have "count_list (map (\<lambda>n. [a, n]) xs) [x, y] = 0"
    using False by (induction xs) simp_all
  with False show ?thesis by simp
qed

lemma count_list_filter:
  "count_list (filter P xs) y = (if P y then count_list xs y else 0)"
  by (induction xs) simp_all

lemma count_list_sort: "count_list (sort xs) y = count_list xs y"
proof -
  have "count (mset (sort xs)) y = count (mset xs) y" by simp
  then show ?thesis unfolding count_mset .
qed

lemma count_bridges_of:
  "count_list (bridges_of a ns) [x, y] = (if x = a \<and> a < y then count_list ns y else 0)"
  unfolding bridges_of_def count_list_pairs count_list_filter count_list_sort by simp

lemma surface_nbrs_Cons:
  "surface_nbrs ((k, ns) # sn) x = (if x = k then ns else surface_nbrs sn x)"
  by (simp add: surface_nbrs_def)

lemma surface_nbrs_notin: "x \<notin> fst ` set sn \<Longrightarrow> surface_nbrs sn x = []"
  by (simp add: surface_nbrs_def map_of_eq_None_iff[THEN iffD2])

lemma get_brige_site_indices_Cons:
  "get_brige_site_indices ((k, ns) # sn) = bridges_of k ns @ get_brige_site_indices sn"
  by (simp add: get_brige_site_indices_def)

lemma count_get_brige_site_indices:
  "distinct (map fst sn) \<Longrightarrow>
     count_list (get_brige_site_indices sn) [a, b] =
       (if a < b then count_list (surface_nbrs sn a) b else 0)"
proof (induction sn arbitrary: a)
  case Nil
  show ?case by (simp add: get_brige_site_indices_def surface_nbrs_def)
next
  case (Cons e sn)
  obtain k ns where e: "e = (k, ns)" by (cases e)
  from Cons.prems have k: "k \<notin> fst ` set sn" and d: "distinct (map fst sn)"
    unfolding e by simp_all
  note ih = Cons.IH[OF d]
  have nk: "surface_nbrs sn k = []" using k by (rule surface_nbrs_notin)
  have "count_list (bridges_of k ns @ get_brige_site_indices sn) [a, b] =
       (if a < b then count_list (if a = k then ns else surface_nbrs sn a) b else 0)"
  proof (cases "a = k")
    case True
    show ?thesis unfolding True count_list_append count_bridges_of ih nk by simp
  next
    case False
    then show ?thesis unfolding count_list_append count_bridges_of ih by simp
  qed
  then show ?case
    unfolding e get_brige_site_indices_Cons surface_nbrs_Cons .
qed

section \<open>The 3-fold hollow enumeration\<close>

text \<open>
  \<^verbatim>\<open>np.intersect1d\<close> as a set, the append of new sites, and the two loops of
  \<^verbatim>\<open>get_hollow_site_indices\<close> started from any list of sites.
\<close>

lemma set_intersect1d: "set (intersect1d xs ys) = set xs \<inter> set ys"
  by (auto simp: intersect1d_def)

lemma length_intersect1d: "length (intersect1d xs ys) = card (set xs \<inter> set ys)"
proof -
  have "length (intersect1d xs ys) = length (remdups (filter (\<lambda>x. x \<in> set ys) xs))"
    by (simp add: intersect1d_def)
  also have "\<dots> = card (set (filter (\<lambda>x. x \<in> set ys) xs))"
    by (rule length_remdups_card_conv)
  also have "set (filter (\<lambda>x. x \<in> set ys) xs) = set xs \<inter> set ys" by auto
  finally show ?thesis .
qed

lemma intersect1d_eq_iff:
  "intersect1d xs ys = intersect1d us vs \<longleftrightarrow> set xs \<inter> set ys = set us \<inter> set vs"
proof
  assume "intersect1d xs ys = intersect1d us vs"
  then have "set (intersect1d xs ys) = set (intersect1d us vs)" by simp
  then show "set xs \<inter> set ys = set us \<inter> set vs" by (simp only: set_intersect1d)
next
  assume e: "set xs \<inter> set ys = set us \<inter> set vs"
  have "sorted (intersect1d xs ys)" "distinct (intersect1d xs ys)"
       "sorted (intersect1d us vs)" "distinct (intersect1d us vs)"
    by (simp_all add: intersect1d_def)
  moreover have "set (intersect1d xs ys) = set (intersect1d us vs)"
    using e by (simp only: set_intersect1d)
  ultimately show "intersect1d xs ys = intersect1d us vs"
    by (rule sorted_distinct_set_unique)
qed

lemma set_append_new: "set (append_new sites s) = insert s (set sites)"
  by (auto simp: append_new_def)

lemma distinct_append_new: "distinct sites \<Longrightarrow> distinct (append_new sites s)"
  by (simp add: append_new_def)

lemma set_hollow_inner:
  "set (hollow_inner a b cs sites) = set sites \<union> {sort [a, b, c] | c. c \<in> set cs}"
proof (induction cs arbitrary: sites)
  case Nil
  show ?case by simp
next
  case (Cons x cs)
  have "set (hollow_inner a b (x # cs) sites) =
          insert (sort [a, b, x]) (set sites) \<union> {sort [a, b, c] | c. c \<in> set cs}"
    by (simp only: hollow_inner.simps Cons.IH set_append_new)
  also have "\<dots> = set sites \<union> {sort [a, b, c] | c. c \<in> set (x # cs)}"
    by (auto simp del: sort_key_simps)
  finally show ?case .
qed

lemma distinct_hollow_inner:
  "distinct sites \<Longrightarrow> distinct (hollow_inner a b cs sites)"
  by (induction cs arbitrary: sites) (simp_all add: distinct_append_new)

lemma getitem_key: "k \<in> fst ` set sn \<Longrightarrow> getitem sn k = Inr (surface_nbrs sn k)"
proof -
  assume "k \<in> fst ` set sn"
  then obtain v where "map_of sn k = Some v"
    by (metis domD dom_map_of_conv_image_fst)
  then show ?thesis by (simp add: getitem_def surface_nbrs_def)
qed

lemma get_surface_common_indices_key:
  "a \<in> fst ` set sn \<Longrightarrow> b \<in> fst ` set sn \<Longrightarrow>
     get_surface_common_indices sn a b = Inr (intersect1d (surface_nbrs sn a) (surface_nbrs sn b))"
  by (simp add: get_surface_common_indices_def getitem_key)

lemma hollow_loop_ok:
  assumes "\<And>br. br \<in> set bs \<Longrightarrow> well_formed_bridge sn br"
  shows "\<exists>h. hollow_loop sn bs sites = Inr h
           \<and> set h = set sites \<union> {sort [a, b, c] | a b c. [a, b] \<in> set bs
                 \<and> c \<in> set (surface_nbrs sn a) \<inter> set (surface_nbrs sn b)}
           \<and> (distinct sites \<longrightarrow> distinct h)"
  using assms
proof (induction bs arbitrary: sites)
  case Nil
  show ?case by simp
next
  case (Cons br bs)
  from Cons.prems[of br] obtain a b where
    br: "br = [a, b]" and ka: "a \<in> fst ` set sn" and kb: "b \<in> fst ` set sn"
    unfolding well_formed_bridge_def by auto
  let ?common = "intersect1d (surface_nbrs sn a) (surface_nbrs sn b)"
  let ?sites1 = "hollow_inner a b ?common sites"
  have step: "hollow_loop sn (br # bs) sites = hollow_loop sn bs ?sites1"
    by (simp add: br get_surface_common_indices_key[OF ka kb])
  have "\<And>x. x \<in> set bs \<Longrightarrow> well_formed_bridge sn x" using Cons.prems by simp
  from Cons.IH[OF this, of ?sites1] obtain h where
    h: "hollow_loop sn bs ?sites1 = Inr h"
       "set h = set ?sites1 \<union> {sort [a, b, c] | a b c. [a, b] \<in> set bs
                 \<and> c \<in> set (surface_nbrs sn a) \<inter> set (surface_nbrs sn b)}"
       "distinct ?sites1 \<longrightarrow> distinct h"
    by blast
  have s1: "set ?sites1 = set sites \<union>
      {sort [a, b, c] | c. c \<in> set (surface_nbrs sn a) \<inter> set (surface_nbrs sn b)}"
    by (simp only: set_hollow_inner set_intersect1d)
  have "set h = set sites \<union> {sort [a', b', c] | a' b' c. [a', b'] \<in> set (br # bs)
                 \<and> c \<in> set (surface_nbrs sn a') \<inter> set (surface_nbrs sn b')}"
    unfolding h(2) s1 br by (auto simp del: sort_key_simps)
  moreover have "distinct sites \<longrightarrow> distinct h"
    using h(3) distinct_hollow_inner by blast
  ultimately show ?case using step h(1) by simp
qed

section \<open>The 4-fold hollow enumeration\<close>

text \<open>
  The tests of the loop body on the lengths of \<^verbatim>\<open>np.intersect1d\<close> results and on
  \<^verbatim>\<open>check_a != check_b\<close> are the acceptance rule \<open>spec_accepts\<close>; the outer loop over the
  bridge list and the inner loop over its rest visit the pairs \<open>later_pairs\<close>.
\<close>

lemma four_fold_step_ok:
  assumes ka: "a \<in> fst ` set sn" and kb: "b \<in> fst ` set sn"
  shows "four_fold_step sn [a, b] [c, d] sites =
           Inr (if spec_accepts sn a b c d then append_new sites (sort [a, b, c, d]) else sites)"
proof -
  have disj: "length (intersect1d [a, b] [c, d]) = 0 \<longleftrightarrow> {a, b} \<inter> {c, d} = {}"
    unfolding length_intersect1d by simp
  have la: "length (intersect1d (surface_nbrs sn a) [c, d]) = card (set (surface_nbrs sn a) \<inter> {c, d})"
    unfolding length_intersect1d by simp
  have lb: "length (intersect1d (surface_nbrs sn b) [c, d]) = card (set (surface_nbrs sn b) \<inter> {c, d})"
    unfolding length_intersect1d by simp
  have ne: "intersect1d (surface_nbrs sn a) [c, d] \<noteq> intersect1d (surface_nbrs sn b) [c, d]
          \<longleftrightarrow> set (surface_nbrs sn a) \<inter> {c, d} \<noteq> set (surface_nbrs sn b) \<inter> {c, d}"
    unfolding intersect1d_eq_iff by simp
  show ?thesis
  proof (cases "{a, b} \<inter> {c, d} = {}")
    case False
    have "\<not> spec_accepts sn a b c d"
    proof
      assume "spec_accepts sn a b c d"
      then have "{a, b} \<inter> {c, d} = {}" unfolding spec_accepts_def by (rule conjunct1)
      with False show False by (rule notE)
    qed
    moreover have nl: "(length (intersect1d [a, b] [c, d]) = 0) = False"
      using False disj by blast
    have "four_fold_step sn [a, b] [c, d] sites = Inr sites"
      unfolding four_fold_step_def by (simp only: nl if_False)
    ultimately show ?thesis by simp
  next
    case True
    have acc: "spec_accepts sn a b c d \<longleftrightarrow>
          (length (intersect1d (surface_nbrs sn a) [c, d]) = 1
           \<and> length (intersect1d (surface_nbrs sn b) [c, d]) = 1)
          \<and> intersect1d (surface_nbrs sn a) [c, d] \<noteq> intersect1d (surface_nbrs sn b) [c, d]"
      unfolding la lb ne spec_accepts_def using True by simp
    have "four_fold_step sn [a, b] [c, d] sites =
            (if length (intersect1d (surface_nbrs sn a) [c, d]) = 1
                \<and> length (intersect1d (surface_nbrs sn b) [c, d]) = 1
             then (if intersect1d (surface_nbrs sn a) [c, d] \<noteq> intersect1d (surface_nbrs sn b) [c, d]
                   then Inr (append_new sites (sort [a, b, c, d])) else Inr sites)
             else Inr sites)"
    proof -
      have tl: "(length (intersect1d [a, b] [c, d]) = 0) = True"
        using True disj by blast
      show ?thesis
        unfolding four_fold_step_def
        by (simp only: tl if_True unpack2.simps getitem_key[OF ka] getitem_key[OF kb]
              sum.case prod.case Let_def)
    qed
    then show ?thesis unfolding acc by (simp del: sort_key_simps)
  qed
qed

lemma four_fold_inner_ok:
  assumes ka: "a \<in> fst ` set sn" and kb: "b \<in> fst ` set sn"
    and "\<And>br. br \<in> set others \<Longrightarrow> well_formed_bridge sn br"
  shows "\<exists>r. four_fold_inner sn [a, b] others sites = Inr r
           \<and> set r = set sites \<union> {sort [a, b, c, d] | c d. [c, d] \<in> set others
                 \<and> spec_accepts sn a b c d}
           \<and> (distinct sites \<longrightarrow> distinct r)"
  using assms(3)
proof (induction others arbitrary: sites)
  case Nil
  show ?case by simp
next
  case (Cons br others)
  from Cons.prems[of br] obtain c d where br: "br = [c, d]"
    unfolding well_formed_bridge_def by auto
  let ?sites1 = "if spec_accepts sn a b c d then append_new sites (sort [a, b, c, d]) else sites"
  have step: "four_fold_inner sn [a, b] (br # others) sites = four_fold_inner sn [a, b] others ?sites1"
    unfolding br four_fold_inner.simps four_fold_step_ok[OF ka kb] by simp
  have "\<And>x. x \<in> set others \<Longrightarrow> well_formed_bridge sn x" using Cons.prems by simp
  from Cons.IH[OF this, of ?sites1] obtain r where
    r: "four_fold_inner sn [a, b] others ?sites1 = Inr r"
       "set r = set ?sites1 \<union> {sort [a, b, c, d] | c d. [c, d] \<in> set others
                 \<and> spec_accepts sn a b c d}"
       "distinct ?sites1 \<longrightarrow> distinct r"
    by blast
  have s1: "set ?sites1 = set sites \<union> (if spec_accepts sn a b c d then {sort [a, b, c, d]} else {})"
    by (simp add: set_append_new del: sort_key_simps)
  have "set r = set sites \<union> {sort [a, b, c', d'] | c' d'. [c', d'] \<in> set (br # others)
                 \<and> spec_accepts sn a b c' d'}"
    unfolding r(2) s1 br by (auto simp del: sort_key_simps)
  moreover have "distinct sites \<longrightarrow> distinct r"
    using r(3) distinct_append_new by simp
  ultimately show ?case using step r(1) by simp
qed

lemma later_pairs_Nil: "later_pairs [] = {}"
  by (simp add: later_pairs_def)

lemma later_pairs_Cons: "later_pairs (x # xs) = {(x, y) | y. y \<in> set xs} \<union> later_pairs xs"
proof (rule set_eqI)
  fix p
  show "p \<in> later_pairs (x # xs) \<longleftrightarrow> p \<in> {(x, y) | y. y \<in> set xs} \<union> later_pairs xs"
  proof
    assume "p \<in> later_pairs (x # xs)"
    then obtain i j where ij: "p = ((x # xs) ! i, (x # xs) ! j)" "i < j" "j < length (x # xs)"
      unfolding later_pairs_def by blast
    from ij(2) obtain j' where j': "j = Suc j'" by (cases j) auto
    show "p \<in> {(x, y) | y. y \<in> set xs} \<union> later_pairs xs"
    proof (cases i)
      case 0
      with ij j' have "p = (x, xs ! j')" "j' < length xs" by simp_all
      then show ?thesis by auto
    next
      case (Suc i')
      with ij j' have "p = (xs ! i', xs ! j')" "i' < j'" "j' < length xs" by simp_all
      then show ?thesis unfolding later_pairs_def by blast
    qed
  next
    assume "p \<in> {(x, y) | y. y \<in> set xs} \<union> later_pairs xs"
    then consider y where "p = (x, y)" "y \<in> set xs" | "p \<in> later_pairs xs" by blast
    then show "p \<in> later_pairs (x # xs)"
    proof cases
      case 1
      from 1(2) obtain j where "j < length xs" "xs ! j = y" by (auto simp: in_set_conv_nth)
      then have "p = ((x # xs) ! 0, (x # xs) ! Suc j)" "0 < Suc j" "Suc j < length (x # xs)"
        using 1(1) by simp_all
      then show ?thesis unfolding later_pairs_def by blast
    next
      case 2
      then obtain i j where "p = (xs ! i, xs ! j)" "i < j" "j < length xs"
        unfolding later_pairs_def by blast
      then have "p = ((x # xs) ! Suc i, (x # xs) ! Suc j)" "Suc i < Suc j" "Suc j < length (x # xs)"
        by simp_all
      then show ?thesis unfolding later_pairs_def by blast
    qed
  qed
qed

lemma four_fold_loop_ok:
  assumes "\<And>br. br \<in> set bs \<Longrightarrow> well_formed_bridge sn br"
  shows "\<exists>r. four_fold_loop sn bs sites = Inr r
           \<and> set r = set sites \<union> {sort [a, b, c, d] | a b c d. ([a, b], [c, d]) \<in> later_pairs bs
                 \<and> spec_accepts sn a b c d}
           \<and> (distinct sites \<longrightarrow> distinct r)"
  using assms
proof (induction bs arbitrary: sites)
  case Nil
  show ?case by (simp add: later_pairs_Nil)
next
  case (Cons br bs)
  from Cons.prems[of br] obtain a b where
    br: "br = [a, b]" and ka: "a \<in> fst ` set sn" and kb: "b \<in> fst ` set sn"
    unfolding well_formed_bridge_def by auto
  have wf: "\<And>x. x \<in> set bs \<Longrightarrow> well_formed_bridge sn x" using Cons.prems by simp
  from four_fold_inner_ok[OF ka kb wf, of bs sites] obtain r1 where
    r1: "four_fold_inner sn [a, b] bs sites = Inr r1"
        "set r1 = set sites \<union> {sort [a, b, c, d] | c d. [c, d] \<in> set bs \<and> spec_accepts sn a b c d}"
        "distinct sites \<longrightarrow> distinct r1"
    by blast
  from Cons.IH[OF wf, of r1] obtain r where
    r: "four_fold_loop sn bs r1 = Inr r"
       "set r = set r1 \<union> {sort [a, b, c, d] | a b c d. ([a, b], [c, d]) \<in> later_pairs bs
                 \<and> spec_accepts sn a b c d}"
       "distinct r1 \<longrightarrow> distinct r"
    by blast
  have step: "four_fold_loop sn (br # bs) sites = Inr r"
    unfolding br four_fold_loop.simps r1(1) using r(1) by simp
  have "set r = set sites \<union> {sort [a', b', c, d] | a' b' c d.
                 ([a', b'], [c, d]) \<in> later_pairs (br # bs) \<and> spec_accepts sn a' b' c d}"
    unfolding r(2) r1(2) later_pairs_Cons br by (auto simp del: sort_key_simps)
  moreover have "distinct sites \<longrightarrow> distinct r" using r(3) r1(3) by simp
  ultimately show ?case using step by simp
qed

section \<open>Results of the two hollow enumerations\<close>

lemma well_formed_bridges:
  assumes "get_surface_neighbors cl nd = Inr (sn, ssn)" "br \<in> set (get_brige_site_indices sn)"
  shows "well_formed_bridge sn br"
  using bridge_wf[OF assms] unfolding well_formed_bridge_def by blast

lemma hollow_result:
  assumes "get_surface_neighbors cl nd = Inr (sn, ssn)"
  shows "\<exists>h. get_hollow_site_indices sn = Inr h \<and> distinct h
           \<and> set h = {sort [a, b, c] | a b c. [a, b] \<in> set (get_brige_site_indices sn)
                 \<and> c \<in> set (surface_nbrs sn a) \<inter> set (surface_nbrs sn b)}"
proof -
  have wf: "\<And>br. br \<in> set (get_brige_site_indices sn) \<Longrightarrow> well_formed_bridge sn br"
    by (rule well_formed_bridges[OF assms])
  have "\<exists>h. hollow_loop sn (get_brige_site_indices sn) [] = Inr h
     \<and> set h = set [] \<union> {sort [a, b, c] | a b c. [a, b] \<in> set (get_brige_site_indices sn)
                 \<and> c \<in> set (surface_nbrs sn a) \<inter> set (surface_nbrs sn b)}
     \<and> (distinct ([]::nat list list) \<longrightarrow> distinct h)"
    by (rule hollow_loop_ok) (rule wf)
  then obtain h where h: "hollow_loop sn (get_brige_site_indices sn) [] = Inr h"
     "set h = set [] \<union> {sort [a, b, c] | a b c. [a, b] \<in> set (get_brige_site_indices sn)
                 \<and> c \<in> set (surface_nbrs sn a) \<inter> set (surface_nbrs sn b)}"
     "distinct ([]::nat list list) \<longrightarrow> distinct h"
    by blast
  from h(2) have "set h = {sort [a, b, c] | a b c. [a, b] \<in> set (get_brige_site_indices sn)
                 \<and> c \<in> set (surface_nbrs sn a) \<inter> set (surface_nbrs sn b)}"
    by (simp del: sort_key_simps)
  moreover from h(3) have "distinct h" by simp
  ultimately show ?thesis using h(1) unfolding get_hollow_site_indices_def by blast
qed

lemma four_fold_result:
  assumes "get_surface_neighbors cl nd = Inr (sn, ssn)"
  shows "\<exists>f. get_four_fold_hollow_site sn = Inr f \<and> distinct f
           \<and> set f = {sort [a, b, c, d] | a b c d.
                 ([a, b], [c, d]) \<in> later_pairs (get_brige_site_indices sn)
                 \<and> spec_accepts sn a b c d}"
proof -
  have wf: "\<And>br. br \<in> set (get_brige_site_indices sn) \<Longrightarrow> well_formed_bridge sn br"
    by (rule well_formed_bridges[OF assms])
  have "\<exists>f. four_fold_loop sn (get_brige_site_indices sn) [] = Inr f
     \<and> set f = set [] \<union> {sort [a, b, c, d] | a b c d.
                 ([a, b], [c, d]) \<in> later_pairs (get_brige_site_indices sn)
                 \<and> spec_accepts sn a b c d}
     \<and> (distinct ([]::nat list list) \<longrightarrow> distinct f)"
    by (rule four_fold_loop_ok) (rule wf)
  then obtain f where f: "four_fold_loop sn (get_brige_site_indices sn) [] = Inr f"
     "set f = set [] \<union> {sort [a, b, c, d] | a b c d.
                 ([a, b], [c, d]) \<in> later_pairs (get_brige_site_indices sn)
                 \<and> spec_accepts sn a b c d}"
     "distinct ([]::nat list list) \<longrightarrow> distinct f"
    by blast
  from f(2) have "set f = {sort [a, b, c, d] | a b c d.
                 ([a, b], [c, d]) \<in> later_pairs (get_brige_site_indices sn)
                 \<and> spec_accepts sn a b c d}"
    by (simp del: sort_key_simps)
  moreover from f(3) have "distinct f" by simp
  ultimately show ?thesis using f(1) unfolding get_four_fold_hollow_site_def by blast
qed

lemma later_pairs_mem: "(x, y) \<in> later_pairs xs \<Longrightarrow> x \<in> set xs \<and> y \<in> set xs"
  unfolding later_pairs_def by auto

section \<open>The example structures\<close>

lemma pyramid_partition:
  "get_surface_neighbors pyramid_coordination pyramid = Inr (pyramid_surface, pyramid_subsurface)"
  by code_simp

lemma triangle_partition:
  "get_surface_neighbors triangle_coordination triangle_facet
     = Inr (triangle_surface, no_subsurface [0, 1, 2])"
  by code_simp

lemma pyramid_bridges:
  "get_brige_site_indices pyramid_surface = [[0, 1], [0, 3], [1, 2], [2, 3]]"
  by code_simp

lemma symmetric_pyramid: "symmetric_graph pyramid"
  unfolding symmetric_graph_def neighbors_of_def pyramid_def
  by (auto split: if_splits)

lemma irreflexive_pyramid: "irreflexive_graph pyramid"
  unfolding irreflexive_graph_def neighbors_of_def pyramid_def
  by (auto split: if_splits)

lemma symmetric_triangle: "symmetric_graph triangle_facet"
  unfolding symmetric_graph_def neighbors_of_def triangle_facet_def
  by (auto split: if_splits)

lemma irreflexive_triangle: "irreflexive_graph triangle_facet"
  unfolding irreflexive_graph_def neighbors_of_def triangle_facet_def
  by (auto split: if_splits)

lemma pyramid_surface_indices: "surface_indices pyramid_coordination = [0, 1, 2, 3]"
  by code_simp

lemma neighbor_sets_pyramid: "surface_neighbor_sets pyramid_coordination pyramid"
  unfolding surface_neighbor_sets_def pyramid_surface_indices
  by (simp add: neighbors_of_def pyramid_def)

section \<open>The claims on the hollow enumerations\<close>

text \<open>
  C3. On the dictionary of a surface partition, the 3-fold hollow enumeration returns
  a list without repetition whose elements are exactly the sorted triples [a, b, c],
  for the bridge pairs [a, b] and the atoms c that are surface neighbours of both a
  and b.
\<close>

theorem three_fold_hollow_sites:
  assumes "get_surface_neighbors cl nd = Inr (sn, ssn)"
  shows "\<exists>h. get_hollow_site_indices sn = Inr h \<and> distinct h
           \<and> set h = {sort [a, b, c] | a b c. [a, b] \<in> set (get_brige_site_indices sn)
                 \<and> c \<in> set (surface_nbrs sn a) \<inter> set (surface_nbrs sn b)}"
  using assms by (rule hollow_result)

theorem three_fold_hollow_sites_witness:
  "get_surface_neighbors triangle_coordination triangle_facet
     = Inr (triangle_surface, no_subsurface [0, 1, 2])
   \<and> get_hollow_site_indices triangle_surface = Inr [[0, 1, 2]]
   \<and> (\<exists>h. get_hollow_site_indices triangle_surface = Inr h \<and> distinct h
           \<and> set h = {sort [a, b, c] | a b c. [a, b] \<in> set (get_brige_site_indices triangle_surface)
                 \<and> c \<in> set (surface_nbrs triangle_surface a) \<inter> set (surface_nbrs triangle_surface b)})"
proof -
  have "get_hollow_site_indices triangle_surface = Inr [[0, 1, 2]]" by code_simp
  with triangle_partition three_fold_hollow_sites[OF triangle_partition]
  show ?thesis by blast
qed

text \<open>
  C2. On the dictionary of a surface partition, the 4-fold hollow enumeration returns
  a list without repetition whose elements are exactly the sorted quadruples
  [a, b, c, d], for the bridge pairs [a, b] and [c, d] such that [c, d] comes after
  [a, b] in the bridge enumeration and the acceptance rule holds: the two pairs share
  no atom, a has exactly one surface neighbour among c and d, b has exactly one, and
  the two are not the same.
\<close>

theorem four_fold_hollow_sites:
  assumes "get_surface_neighbors cl nd = Inr (sn, ssn)"
  shows "\<exists>f. get_four_fold_hollow_site sn = Inr f \<and> distinct f
           \<and> set f = {sort [a, b, c, d] | a b c d.
                 ([a, b], [c, d]) \<in> later_pairs (get_brige_site_indices sn)
                 \<and> spec_accepts sn a b c d}"
  using assms by (rule four_fold_result)

theorem four_fold_hollow_sites_witness:
  "get_surface_neighbors pyramid_coordination pyramid = Inr (pyramid_surface, pyramid_subsurface)
   \<and> get_four_fold_hollow_site pyramid_surface = Inr [[0, 1, 2, 3]]
   \<and> (\<exists>f. get_four_fold_hollow_site pyramid_surface = Inr f \<and> distinct f
           \<and> set f = {sort [a, b, c, d] | a b c d.
                 ([a, b], [c, d]) \<in> later_pairs (get_brige_site_indices pyramid_surface)
                 \<and> spec_accepts pyramid_surface a b c d})"
proof -
  have "get_four_fold_hollow_site pyramid_surface = Inr [[0, 1, 2, 3]]" by code_simp
  with pyramid_partition four_fold_hollow_sites[OF pyramid_partition]
  show ?thesis by blast
qed

section \<open>Sites lie on the surface\<close>

lemma surface_index: "x \<in> set (surface_indices cl) \<Longrightarrow> x < length cl \<and> cl ! x < 12"
  by (simp add: surface_indices_set)

lemma bridge_atoms_surface:
  assumes "get_surface_neighbors cl nd = Inr (sn, ssn)" "[a, b] \<in> set (get_brige_site_indices sn)"
  shows "a \<in> set (surface_indices cl)" "b \<in> set (surface_indices cl)"
    "a < b" "b \<in> set (surface_nbrs sn a)"
proof -
  from assms(2) obtain a' b' where
    ab: "[a, b] = [a', b']" "a' \<in> set (surface_indices cl)" "b' \<in> set (surface_nbrs sn a')" "a' < b'"
    unfolding bridge_set_surface[OF assms(1)] by blast
  then have e: "a' = a" "b' = b" by simp_all
  show "a \<in> set (surface_indices cl)" "a < b" "b \<in> set (surface_nbrs sn a)"
    using ab(2,3,4) unfolding e by blast+
  then show "b \<in> set (surface_indices cl)"
    using surface_nbrs_surface(2)[OF assms(1)] by blast
qed

lemma on_surface_bridges:
  assumes "get_surface_neighbors cl nd = Inr (sn, ssn)"
  shows "on_surface cl (get_brige_site_indices sn)"
  unfolding on_surface_def
proof (intro ballI)
  fix site x assume s: "site \<in> set (get_brige_site_indices sn)" and x: "x \<in> set site"
  from bridge_wf[OF assms s] obtain a b where ab: "site = [a, b]" by blast
  from bridge_atoms_surface(1,2)[OF assms s[unfolded ab]] x
  have "x \<in> set (surface_indices cl)" unfolding ab by auto
  then show "x < length cl \<and> cl ! x < 12" by (rule surface_index)
qed

lemma on_surface_hollow:
  assumes "get_surface_neighbors cl nd = Inr (sn, ssn)" "get_hollow_site_indices sn = Inr h"
  shows "on_surface cl h"
  unfolding on_surface_def
proof (intro ballI)
  fix site x assume s: "site \<in> set h" and x: "x \<in> set site"
  from hollow_result[OF assms(1)] assms(2)
  have "set h = {sort [a, b, c] | a b c. [a, b] \<in> set (get_brige_site_indices sn)
                 \<and> c \<in> set (surface_nbrs sn a) \<inter> set (surface_nbrs sn b)}"
    by auto
  with s obtain a b c where abc: "site = sort [a, b, c]"
    "[a, b] \<in> set (get_brige_site_indices sn)" "c \<in> set (surface_nbrs sn a)"
    by blast
  have "set site = {a, b, c}" unfolding abc(1) set_sort by simp
  moreover note bridge_atoms_surface(1,2)[OF assms(1) abc(2)]
  moreover have "c \<in> set (surface_indices cl)"
    using surface_nbrs_surface(2)[OF assms(1) abc(3)] .
  ultimately have "x \<in> set (surface_indices cl)" using x by auto
  then show "x < length cl \<and> cl ! x < 12" by (rule surface_index)
qed

lemma on_surface_four_fold:
  assumes "get_surface_neighbors cl nd = Inr (sn, ssn)" "get_four_fold_hollow_site sn = Inr f"
  shows "on_surface cl f"
  unfolding on_surface_def
proof (intro ballI)
  fix site x assume s: "site \<in> set f" and x: "x \<in> set site"
  from four_fold_result[OF assms(1)] assms(2)
  have "set f = {sort [a, b, c, d] | a b c d.
                 ([a, b], [c, d]) \<in> later_pairs (get_brige_site_indices sn)
                 \<and> spec_accepts sn a b c d}"
    by auto
  with s obtain a b c d where abcd: "site = sort [a, b, c, d]"
    "([a, b], [c, d]) \<in> later_pairs (get_brige_site_indices sn)"
    by blast
  from later_pairs_mem[OF abcd(2)] have m: "[a, b] \<in> set (get_brige_site_indices sn)"
    "[c, d] \<in> set (get_brige_site_indices sn)" by simp_all
  have "set site = {a, b, c, d}" unfolding abcd(1) set_sort by simp
  moreover note bridge_atoms_surface(1,2)[OF assms(1) m(1)]
    bridge_atoms_surface(1,2)[OF assms(1) m(2)]
  ultimately have "x \<in> set (surface_indices cl)" using x by auto
  then show "x < length cl \<and> cl ! x < 12" by (rule surface_index)
qed

text \<open>
  C9. On the dictionary of a surface partition, every atom index of every bridge
  pair, of every 3-fold hollow site and of every 4-fold hollow site is the index of an
  atom whose coordination number is strictly below 12.
\<close>

theorem sites_on_surface:
  assumes "get_surface_neighbors cl nd = Inr (sn, ssn)"
  shows "on_surface cl (get_brige_site_indices sn)
       \<and> (\<exists>h. get_hollow_site_indices sn = Inr h \<and> on_surface cl h)
       \<and> (\<exists>f. get_four_fold_hollow_site sn = Inr f \<and> on_surface cl f)"
proof -
  from hollow_result[OF assms] obtain h where h: "get_hollow_site_indices sn = Inr h" by blast
  from four_fold_result[OF assms] obtain f where f: "get_four_fold_hollow_site sn = Inr f" by blast
  from on_surface_bridges[OF assms] on_surface_hollow[OF assms h] on_surface_four_fold[OF assms f] h f
  show ?thesis by blast
qed

theorem sites_on_surface_witness:
  "get_surface_neighbors pyramid_coordination pyramid = Inr (pyramid_surface, pyramid_subsurface)
   \<and> on_surface pyramid_coordination (get_brige_site_indices pyramid_surface)
   \<and> (\<exists>h. get_hollow_site_indices pyramid_surface = Inr h \<and> on_surface pyramid_coordination h)
   \<and> (\<exists>f. get_four_fold_hollow_site pyramid_surface = Inr f \<and> on_surface pyramid_coordination f)"
  using pyramid_partition sites_on_surface[OF pyramid_partition] by blast

section \<open>Repetitions in the results\<close>

lemma count_list_distinct_le: "distinct xs \<Longrightarrow> count_list xs x \<le> 1"
  by (induction xs) auto

lemma count_list_distinct_mem: "distinct xs \<Longrightarrow> x \<in> set xs \<Longrightarrow> count_list xs x = 1"
  by (induction xs) auto

lemma distinct_if_count_le:
  "(\<And>x. count_list xs x \<le> 1) \<Longrightarrow> distinct xs"
proof (induction xs)
  case Nil
  show ?case by simp
next
  case (Cons y ys)
  have "count_list ys x \<le> 1" for x
    using Cons.prems[of x] by (simp split: if_splits)
  then have d: "distinct ys" by (rule Cons.IH)
  have "count_list ys y = 0" using Cons.prems[of y] by simp
  then have "y \<notin> set ys" by (simp add: count_list_0_iff)
  with d show ?case by simp
qed

lemma neighbor_sets_if_distinct:
  "(\<And>a. distinct (neighbors_of nd a)) \<Longrightarrow> surface_neighbor_sets cl nd"
  unfolding surface_neighbor_sets_def by simp

lemma distinct_surface_nbrs:
  assumes "get_surface_neighbors cl nd = Inr (sn, ssn)"
    and "surface_neighbor_sets cl nd"
  shows "distinct (surface_nbrs sn a)"
proof (cases "a \<in> set (surface_indices cl)")
  case True
  with assms(2) show ?thesis
    unfolding surface_dict_facts(3)[OF assms(1) True] surface_neighbor_sets_def by (rule bspec)
next
  case False
  then show ?thesis unfolding surface_dict_facts(4)[OF assms(1) False] by simp
qed

lemma distinct_bridges:
  assumes "get_surface_neighbors cl nd = Inr (sn, ssn)"
    and "surface_neighbor_sets cl nd"
  shows "distinct (get_brige_site_indices sn)"
proof (rule distinct_if_count_le)
  fix br
  show "count_list (get_brige_site_indices sn) br \<le> 1"
  proof (cases "br \<in> set (get_brige_site_indices sn)")
    case False
    then show ?thesis by simp
  next
    case True
    from bridge_wf[OF assms(1) True] obtain a b where ab: "br = [a, b]" by blast
    have "count_list (get_brige_site_indices sn) [a, b] \<le> count_list (surface_nbrs sn a) b"
      unfolding count_get_brige_site_indices[OF surface_dict_facts(1)[OF assms(1)]] by simp
    also have "\<dots> \<le> 1"
      using distinct_surface_nbrs[OF assms] by (rule count_list_distinct_le)
    finally show ?thesis unfolding ab .
  qed
qed

lemma sort_bridges:
  assumes "get_surface_neighbors cl nd = Inr (sn, ssn)"
  shows "map sort (get_brige_site_indices sn) = get_brige_site_indices sn"
proof (rule map_idI)
  fix br assume "br \<in> set (get_brige_site_indices sn)"
  from bridge_wf[OF assms this] obtain a b where "br = [a, b]" "a < b" by blast
  then show "sort br = br" by simp
qed

lemma sort_sorted_sites:
  assumes "\<And>s. s \<in> set sites \<Longrightarrow> \<exists>xs. s = sort xs"
  shows "map sort sites = sites"
proof (rule map_idI)
  fix s assume "s \<in> set sites"
  from assms[OF this] obtain xs where "s = sort xs" by blast
  then have "sorted s" by simp
  then show "sort s = s" by (rule sorted_sort_id)
qed

lemma sort_hollow:
  assumes "get_surface_neighbors cl nd = Inr (sn, ssn)" "get_hollow_site_indices sn = Inr h"
  shows "map sort h = h"
proof (rule sort_sorted_sites)
  fix s assume s: "s \<in> set h"
  from hollow_result[OF assms(1)] assms(2)
  have "set h = {sort [a, b, c] | a b c. [a, b] \<in> set (get_brige_site_indices sn)
                 \<and> c \<in> set (surface_nbrs sn a) \<inter> set (surface_nbrs sn b)}"
    by auto
  with s show "\<exists>xs. s = sort xs" by blast
qed

lemma sort_four_fold:
  assumes "get_surface_neighbors cl nd = Inr (sn, ssn)" "get_four_fold_hollow_site sn = Inr f"
  shows "map sort f = f"
proof (rule sort_sorted_sites)
  fix s assume s: "s \<in> set f"
  from four_fold_result[OF assms(1)] assms(2)
  have "set f = {sort [a, b, c, d] | a b c d.
                 ([a, b], [c, d]) \<in> later_pairs (get_brige_site_indices sn)
                 \<and> spec_accepts sn a b c d}"
    by auto
  with s show "\<exists>xs. s = sort xs" by blast
qed

text \<open>
  C5. On the dictionary of a surface partition, no tuple occurs twice, compared after
  sorting, in the result of the 3-fold hollow enumeration or in that of the 4-fold
  hollow enumeration, whatever the neighbour lists; and none occurs twice in the result
  of the bridge enumeration for the inputs of the data model, where the neighbours of
  an atom are a set.
\<close>

theorem no_duplicate_sites:
  assumes "get_surface_neighbors cl nd = Inr (sn, ssn)"
  shows "(surface_neighbor_sets cl nd \<longrightarrow> distinct (map sort (get_brige_site_indices sn)))
       \<and> (\<exists>h. get_hollow_site_indices sn = Inr h \<and> distinct (map sort h))
       \<and> (\<exists>f. get_four_fold_hollow_site sn = Inr f \<and> distinct (map sort f))"
proof -
  from hollow_result[OF assms] obtain h where
    h: "get_hollow_site_indices sn = Inr h" "distinct h" by blast
  from four_fold_result[OF assms] obtain f where
    f: "get_four_fold_hollow_site sn = Inr f" "distinct f" by blast
  have "distinct (map sort (get_brige_site_indices sn))" if "surface_neighbor_sets cl nd"
    unfolding sort_bridges[OF assms] using assms that by (rule distinct_bridges)
  moreover have "distinct (map sort h)" unfolding sort_hollow[OF assms h(1)] by (rule h(2))
  moreover have "distinct (map sort f)" unfolding sort_four_fold[OF assms f(1)] by (rule f(2))
  ultimately show ?thesis using h(1) f(1) by blast
qed

theorem no_duplicate_sites_witness:
  "get_surface_neighbors pyramid_coordination pyramid = Inr (pyramid_surface, pyramid_subsurface)
   \<and> surface_neighbor_sets pyramid_coordination pyramid
   \<and> distinct (map sort (get_brige_site_indices pyramid_surface))
   \<and> (\<exists>h. get_hollow_site_indices pyramid_surface = Inr h \<and> distinct (map sort h))
   \<and> (\<exists>f. get_four_fold_hollow_site pyramid_surface = Inr f \<and> distinct (map sort f))"
  using pyramid_partition no_duplicate_sites[OF pyramid_partition] neighbor_sets_pyramid by blast

section \<open>Bridge pairs of a symmetric graph\<close>

lemma surface_nbrs_symmetric:
  assumes "get_surface_neighbors cl nd = Inr (sn, ssn)" "symmetric_graph nd"
    and "b \<in> set (surface_nbrs sn a)"
  shows "a \<in> set (surface_nbrs sn b)"
proof -
  note s = surface_nbrs_surface[OF assms(1,3)]
  from assms(2) s(3) have "a \<in> set (neighbors_of nd b)"
    unfolding symmetric_graph_def by blast
  with s(1) show ?thesis unfolding surface_dict_facts(3)[OF assms(1) s(2)] by simp
qed

lemma surface_nbrs_irreflexive:
  assumes "get_surface_neighbors cl nd = Inr (sn, ssn)" "irreflexive_graph nd"
    and "b \<in> set (surface_nbrs sn a)"
  shows "a \<noteq> b"
proof
  assume "a = b"
  with surface_nbrs_surface(3)[OF assms(1,3)] have "b \<in> set (neighbors_of nd b)" by simp
  with assms(2) show False unfolding irreflexive_graph_def by blast
qed

lemma count_bridge_pair:
  assumes "get_surface_neighbors cl nd = Inr (sn, ssn)"
    and "surface_neighbor_sets cl nd"
    and "x < y" "y \<in> set (surface_nbrs sn x)"
  shows "count_list (get_brige_site_indices sn) [x, y] = 1"
    and "count_list (get_brige_site_indices sn) [y, x] = 0"
proof -
  have "count_list (get_brige_site_indices sn) [x, y] = count_list (surface_nbrs sn x) y"
    unfolding count_get_brige_site_indices[OF surface_dict_facts(1)[OF assms(1)]]
    using assms(3) by simp
  also have "\<dots> = 1"
    using distinct_surface_nbrs[OF assms(1,2)] assms(4) by (rule count_list_distinct_mem)
  finally show "count_list (get_brige_site_indices sn) [x, y] = 1" .
  show "count_list (get_brige_site_indices sn) [y, x] = 0"
    unfolding count_get_brige_site_indices[OF surface_dict_facts(1)[OF assms(1)]]
    using assms(3) by simp
qed

text \<open>
  C1. For a symmetric neighbour graph of the data model, where the neighbours of an
  atom are a set: the bridge enumeration emits [a, b] for every surface atom a and
  every surface neighbour b of a with a < b; every pair it emits is of this form; and
  for two different atoms of which one is a surface neighbour of the other, each is a
  surface neighbour of the other, the pair with the smaller index first occurs exactly
  once in the result and the pair with the larger index first does not occur.
\<close>

theorem bridge_sites:
  assumes "get_surface_neighbors cl nd = Inr (sn, ssn)"
    and "symmetric_graph nd"
    and "surface_neighbor_sets cl nd"
  shows "(\<forall>a \<in> set (surface_indices cl). \<forall>b \<in> set (surface_nbrs sn a).
            a < b \<longrightarrow> [a, b] \<in> set (get_brige_site_indices sn))
       \<and> (\<forall>br \<in> set (get_brige_site_indices sn). \<exists>a b. br = [a, b] \<and> a < b
            \<and> a \<in> set (surface_indices cl) \<and> b \<in> set (surface_nbrs sn a))
       \<and> (\<forall>a b. a \<noteq> b \<and> b \<in> set (surface_nbrs sn a) \<longrightarrow>
            surface_adjacent sn a b
            \<and> count_list (get_brige_site_indices sn) [min a b, max a b] = 1
            \<and> count_list (get_brige_site_indices sn) [max a b, min a b] = 0)"
proof (intro conjI allI impI ballI)
  fix a b assume "a \<in> set (surface_indices cl)" "b \<in> set (surface_nbrs sn a)" "a < b"
  then show "[a, b] \<in> set (get_brige_site_indices sn)"
    unfolding bridge_set_surface[OF assms(1)] by blast
next
  fix br assume "br \<in> set (get_brige_site_indices sn)"
  then show "\<exists>a b. br = [a, b] \<and> a < b \<and> a \<in> set (surface_indices cl)
               \<and> b \<in> set (surface_nbrs sn a)"
    unfolding bridge_set_surface[OF assms(1)] by blast
next
  fix a b assume ab: "a \<noteq> b \<and> b \<in> set (surface_nbrs sn a)"
  then have ba: "a \<in> set (surface_nbrs sn b)"
    using surface_nbrs_symmetric[OF assms(1,2)] by blast
  with ab show "surface_adjacent sn a b" unfolding surface_adjacent_def by simp
  have m: "min a b < max a b" "max a b \<in> set (surface_nbrs sn (min a b))"
    using ab ba by (auto simp: min_def max_def)
  show "count_list (get_brige_site_indices sn) [min a b, max a b] = 1"
    using assms(1,3) m by (rule count_bridge_pair(1))
  show "count_list (get_brige_site_indices sn) [max a b, min a b] = 0"
    using assms(1,3) m by (rule count_bridge_pair(2))
qed

theorem bridge_sites_witness:
  "get_surface_neighbors pyramid_coordination pyramid = Inr (pyramid_surface, pyramid_subsurface)
   \<and> symmetric_graph pyramid \<and> surface_neighbor_sets pyramid_coordination pyramid
   \<and> get_brige_site_indices pyramid_surface = [[0, 1], [0, 3], [1, 2], [2, 3]]
   \<and> surface_adjacent pyramid_surface 3 0
   \<and> count_list (get_brige_site_indices pyramid_surface) [min 3 0, max 3 0] = 1
   \<and> count_list (get_brige_site_indices pyramid_surface) [max 3 0, min 3 0] = 0"
proof -
  note t = bridge_sites[OF pyramid_partition symmetric_pyramid neighbor_sets_pyramid]
  have "(3::nat) \<noteq> 0 \<and> 0 \<in> set (surface_nbrs pyramid_surface 3)"
    by (simp add: surface_nbrs_def pyramid_surface_def)
  with t have "surface_adjacent pyramid_surface 3 0
     \<and> count_list (get_brige_site_indices pyramid_surface) [min 3 0, max 3 0] = 1
     \<and> count_list (get_brige_site_indices pyramid_surface) [max 3 0, min 3 0] = 0"
    by blast
  with pyramid_partition symmetric_pyramid neighbor_sets_pyramid pyramid_bridges
  show ?thesis by blast
qed

section \<open>3-fold hollow sites are triangles\<close>

lemma sort_triple:
  fixes a b c :: nat
  assumes "a < b" "c \<noteq> a" "c \<noteq> b"
  shows "sort [a, b, c] = (if c < a then [c, a, b] else if c < b then [a, c, b] else [a, b, c])"
  using assms by auto

text \<open>
  C10. For a symmetric and irreflexive neighbour graph, every 3-fold hollow site is a
  list [x, y, z] with x < y < z whose three atoms are pairwise surface-adjacent.
\<close>

theorem hollow_sites_are_triangles:
  assumes "get_surface_neighbors cl nd = Inr (sn, ssn)"
    and "symmetric_graph nd" and "irreflexive_graph nd"
  shows "\<exists>h. get_hollow_site_indices sn = Inr h
           \<and> (\<forall>site \<in> set h. \<exists>x y z. site = [x, y, z] \<and> x < y \<and> y < z
                 \<and> surface_adjacent sn x y \<and> surface_adjacent sn x z \<and> surface_adjacent sn y z)"
proof -
  from hollow_result[OF assms(1)] obtain h where
    h: "get_hollow_site_indices sn = Inr h"
       "set h = {sort [a, b, c] | a b c. [a, b] \<in> set (get_brige_site_indices sn)
                 \<and> c \<in> set (surface_nbrs sn a) \<inter> set (surface_nbrs sn b)}"
    by blast
  have adj: "surface_adjacent sn x y" if "y \<in> set (surface_nbrs sn x)" for x y
    unfolding surface_adjacent_def
    using that surface_nbrs_symmetric[OF assms(1,2) that] by simp
  have sym: "surface_adjacent sn x y \<Longrightarrow> surface_adjacent sn y x" for x y
    unfolding surface_adjacent_def by simp
  have "\<exists>x y z. site = [x, y, z] \<and> x < y \<and> y < z
                 \<and> surface_adjacent sn x y \<and> surface_adjacent sn x z \<and> surface_adjacent sn y z"
    if "site \<in> set h" for site
  proof -
    from that h(2) obtain a b c where
      abc: "site = sort [a, b, c]" "[a, b] \<in> set (get_brige_site_indices sn)"
           "c \<in> set (surface_nbrs sn a)" "c \<in> set (surface_nbrs sn b)"
      by blast
    note br = bridge_atoms_surface(3,4)[OF assms(1) abc(2)]
    have ne: "c \<noteq> a" "c \<noteq> b"
      using surface_nbrs_irreflexive[OF assms(1,3) abc(3)]
            surface_nbrs_irreflexive[OF assms(1,3) abc(4)] by simp_all
    have ab: "surface_adjacent sn a b" using br(2) by (rule adj)
    have ac: "surface_adjacent sn a c" using abc(3) by (rule adj)
    have bc: "surface_adjacent sn b c" using abc(4) by (rule adj)
    consider "c < a" | "a < c" "c < b" | "b < c" using ne by linarith
    then show ?thesis
    proof cases
      case 1
      then have "site = [c, a, b]" unfolding abc(1) sort_triple[OF br(1) ne] by simp
      with 1 br(1) sym[OF ac] sym[OF bc] ab show ?thesis by blast
    next
      case 2
      then have "site = [a, c, b]" unfolding abc(1) sort_triple[OF br(1) ne] by simp
      with 2 ac ab sym[OF bc] show ?thesis by blast
    next
      case 3
      with br(1) have "site = [a, b, c]" unfolding abc(1) sort_triple[OF br(1) ne] by simp
      with 3 br(1) ab ac bc show ?thesis by blast
    qed
  qed
  with h(1) show ?thesis by blast
qed

theorem hollow_sites_are_triangles_witness:
  "get_surface_neighbors triangle_coordination triangle_facet
     = Inr (triangle_surface, no_subsurface [0, 1, 2])
   \<and> symmetric_graph triangle_facet \<and> irreflexive_graph triangle_facet
   \<and> (\<exists>h. get_hollow_site_indices triangle_surface = Inr h
           \<and> (\<forall>site \<in> set h. \<exists>x y z. site = [x, y, z] \<and> x < y \<and> y < z
                 \<and> surface_adjacent triangle_surface x y \<and> surface_adjacent triangle_surface x z
                 \<and> surface_adjacent triangle_surface y z))"
  using triangle_partition symmetric_triangle irreflexive_triangle
    hollow_sites_are_triangles[OF triangle_partition symmetric_triangle irreflexive_triangle]
  by blast

end
